theory Spec2Isabelle
  imports Main "HOL-Library.Multiset"
begin

section \<open>Strings\<close>

text \<open>
  Strings are byte lists. \<open>str.strip()\<close> removes leading and trailing whitespace; the
  ASCII whitespace characters of Python are tab, line feed, vertical tab, form feed,
  carriage return, the four separators 0x1C..0x1F and the space. Whitespace outside ASCII
  is outside this model.
\<close>

definition is_space :: "char \<Rightarrow> bool" where
  "is_space c = (c \<in> set [CHR 0x09, CHR 0x0A, CHR 0x0B, CHR 0x0C, CHR 0x0D,
                            CHR 0x1C, CHR 0x1D, CHR 0x1E, CHR 0x1F, CHR 0x20])"

definition strip :: "string \<Rightarrow> string" where
  "strip s = rev (dropWhile is_space (rev (dropWhile is_space s)))"

text \<open>\<open>sep.join(xs)\<close>\<close>

fun join :: "string \<Rightarrow> string list \<Rightarrow> string" where
  "join sep [] = []"
| "join sep [x] = x"
| "join sep (x # y # ys) = x @ sep @ join sep (y # ys)"

section \<open>Python dictionaries with insertion order\<close>

text \<open>
  \<open>d[k] = v\<close>: an existing key keeps its position and takes the new value, a new key is
  appended. \<open>d.get(k)\<close> is \<open>map_of d k\<close>; a dictionary is truthy when it is not \<open>[]\<close>.
\<close>

fun dict_set :: "'k \<Rightarrow> 'v \<Rightarrow> ('k \<times> 'v) list \<Rightarrow> ('k \<times> 'v) list" where
  "dict_set k v [] = [(k, v)]"
| "dict_set k v ((k', v') # d) =
     (if k = k' then (k, v) # d else (k', v') # dict_set k v d)"

section \<open>Parsed pages\<close>

text \<open>
  A parsed document is a tree of text nodes and elements; an element has a tag name, the
  list of its classes (the multi-valued \<open>class\<close> attribute), its other attributes and
  its children. The document itself is the root element.
\<close>

datatype node =
    Text string
  | Element string "string list" "(string \<times> string) list" "node list"

datatype error = FetchError | KeyError | ZeroDivisionError | ValueError | StopIteration

text \<open>All nodes below a node, in document order (the node itself excluded).\<close>

fun descendants :: "node \<Rightarrow> node list" where
  "descendants (Text s) = []"
| "descendants (Element n cl at cs) = concat (map (\<lambda>c. c # descendants c) cs)"

text \<open>\<open>.text\<close>: the text nodes below a node, concatenated.\<close>

fun get_text :: "node \<Rightarrow> string" where
  "get_text (Text s) = s"
| "get_text (Element n cl at cs) = concat (map get_text cs)"

fun is_tag :: "string \<Rightarrow> node \<Rightarrow> bool" where
  "is_tag nm (Text s) = False"
| "is_tag nm (Element n cl at cs) = (n = nm)"

text \<open>
  A \<open>class_\<close> filter matches an element when one of its classes equals the filter string
  or when its classes joined by single spaces equal the filter string.
\<close>

fun has_class :: "string \<Rightarrow> node \<Rightarrow> bool" where
  "has_class sel (Text s) = False"
| "has_class sel (Element n cl at cs) = (sel \<in> set cl \<or> sel = join '' '' cl)"

fun attr :: "string \<Rightarrow> node \<Rightarrow> string option" where
  "attr a (Text s) = None"
| "attr a (Element n cl at cs) = map_of at a"

definition find_all :: "(node \<Rightarrow> bool) \<Rightarrow> node \<Rightarrow> node list" where
  "find_all P e = filter P (descendants e)"

definition find_first :: "(node \<Rightarrow> bool) \<Rightarrow> node \<Rightarrow> node option" where
  "find_first P e = (case find_all P e of [] \<Rightarrow> None | x # _ \<Rightarrow> Some x)"

section \<open>Listing links of a results page\<close>

text \<open>
  The network and the parser are the parameter \<open>web\<close>: the request, the status check and
  the parse of a URL either raise or give the parsed document.
\<close>

type_synonym web = "string \<Rightarrow> error + node"

definition is_listing_link :: "node \<Rightarrow> bool" where
  "is_listing_link e = (is_tag ''a'' e \<and> attr ''data-cy'' e = Some ''listing-item-link'')"

text \<open>\<open>link['href']\<close> raises \<open>KeyError\<close> when the attribute is missing.\<close>

fun link_urls :: "node list \<Rightarrow> error + string list" where
  "link_urls [] = Inr []"
| "link_urls (l # ls) =
     (case attr ''href'' l of
        None \<Rightarrow> Inl KeyError
      | Some h \<Rightarrow> (case link_urls ls of
                    Inl e \<Rightarrow> Inl e
                  | Inr us \<Rightarrow> Inr ((''https://www.otodom.pl/'' @ h) # us)))"

text \<open>The body of the \<open>try\<close> block of \<open>get_listings_page\<close>.\<close>

definition get_listings_page_try :: "web \<Rightarrow> string \<Rightarrow> error + string list" where
  "get_listings_page_try web page_url =
     (case web page_url of
        Inl e \<Rightarrow> Inl e
      | Inr soup \<Rightarrow> link_urls (find_all is_listing_link soup))"

text \<open>\<open>except Exception\<close>: every error becomes the empty list.\<close>

definition get_listings_page :: "web \<Rightarrow> string \<Rightarrow> string list" where
  "get_listings_page web page_url =
     (case get_listings_page_try web page_url of Inl e \<Rightarrow> [] | Inr us \<Rightarrow> us)"

section \<open>Fields of a listing page\<close>

definition is_value_span :: "node \<Rightarrow> bool" where
  "is_value_span e = (is_tag ''span'' e \<and> has_class ''css-axw7ok'' e)"

definition extract_spans_from_p :: "node \<Rightarrow> string list" where
  "extract_spans_from_p p_element = map (\<lambda>span. strip (get_text span)) (find_all is_value_span p_element)"

text \<open>
  One pass of the loop body of \<open>extract_label_value_pairs\<close> on a container, given the
  dictionary built so far.
\<close>

definition container_step ::
  "string list \<Rightarrow> (string \<times> string) list \<Rightarrow> node \<Rightarrow> (string \<times> string) list" where
  "container_step labels_to_find results container =
     (case find_all (is_tag ''p'') container of
        [p0, p1] \<Rightarrow>
          (let label = strip (get_text p0) in
           if label \<in> set labels_to_find then
             (let spans = find_all is_value_span p1;
                  v = (if spans \<noteq> []
                       then join ''; '' (map (\<lambda>span. strip (get_text span)) spans)
                       else strip (get_text p1))
              in dict_set label v results)
           else results)
      | _ \<Rightarrow> results)"

definition is_container :: "string \<Rightarrow> node \<Rightarrow> bool" where
  "is_container container_class e = (is_tag ''div'' e \<and> has_class container_class e)"

definition extract_label_value_pairs ::
  "node \<Rightarrow> string list \<Rightarrow> string \<Rightarrow> (string \<times> string) list" where
  "extract_label_value_pairs soup labels_to_find container_class =
     foldl (container_step labels_to_find) [] (find_all (is_container container_class) soup)"

type_synonym details = "(string \<times> string option) list"

text \<open>The two loops of \<open>get_listing_details\<close> over the items of the mappings.\<close>

fun direct_fields :: "node \<Rightarrow> (string \<times> string) list \<Rightarrow> details \<Rightarrow> details" where
  "direct_fields soup [] details = details"
| "direct_fields soup ((field, selector) # m) details =
     direct_fields soup m
       (dict_set field
          (case find_first (has_class selector) soup of
             None \<Rightarrow> None
           | Some element \<Rightarrow> Some (strip (get_text element)))
          details)"

fun label_fields :: "(string \<times> string) list \<Rightarrow> (string \<times> string) list \<Rightarrow> details \<Rightarrow> details" where
  "label_fields label_values [] details = details"
| "label_fields label_values ((field, label) # m) details =
     label_fields label_values m (dict_set field (map_of label_values label) details)"

definition container_class :: string where
  "container_class = ''css-t7cajz e15n0fyo1''"

definition get_listing_details ::
  "web \<Rightarrow> string \<Rightarrow> (string \<times> string) list \<Rightarrow> (string \<times> string) list \<Rightarrow> details" where
  "get_listing_details web listing_url div_class_mapping label_mapping =
     (case web listing_url of
        Inl e \<Rightarrow> []
      | Inr soup \<Rightarrow>
          (let details = [(''url'', Some listing_url)];
               details = direct_fields soup div_class_mapping details;
               label_values = extract_label_value_pairs soup (map snd label_mapping) container_class
           in label_fields label_values label_mapping details))"

section \<open>Collecting and persisting the listing URLs\<close>

fun string_of_nat :: "nat \<Rightarrow> string" where
  "string_of_nat n =
     (if n < 10 then [''0123456789'' ! n]
      else string_of_nat (n div 10) @ [''0123456789'' ! (n mod 10)])"

declare string_of_nat.simps [simp del]

definition page_url :: "string \<Rightarrow> nat \<Rightarrow> string" where
  "page_url base_url page =
     (if page > 1 then base_url @ ''&page='' @ string_of_nat page else base_url)"



text \<open>The content of \<open>listing_urls.txt\<close>: every URL followed by a line feed.\<close>

definition write_urls :: "string list \<Rightarrow> string" where
  "write_urls urls = concat (map (\<lambda>url. url @ [CHR 0x0A]) urls)"

section \<open>Reading the batches\<close>

text \<open>
  A text file read line by line. A line ends at a line feed, a carriage return or a carriage
  return followed by a line feed (universal newlines), each read as one line feed; the last
  line may have no terminator. \<open>next(f)\<close> raises \<open>StopIteration\<close> at the end of the file.
\<close>

fun readline :: "string \<Rightarrow> string \<times> string" where
  "readline [] = ([], [])"
| "readline (c # cs) =
     (if c = CHR 0x0A then ([CHR 0x0A], cs)
      else if c = CHR 0x0D then
        ([CHR 0x0A], case cs of [] \<Rightarrow> [] | d # ds \<Rightarrow> if d = CHR 0x0A then ds else cs)
      else (case readline cs of (l, r) \<Rightarrow> (c # l, r)))"

definition next_line :: "string \<Rightarrow> error + string \<times> string" where
  "next_line f = (if f = [] then Inl StopIteration else Inr (readline f))"

text \<open>\<open>for _ in range(urls_processed): next(f)\<close>\<close>

fun skip_lines :: "nat \<Rightarrow> string \<Rightarrow> error + string" where
  "skip_lines 0 f = Inr f"
| "skip_lines (Suc n) f =
     (case next_line f of Inl e \<Rightarrow> Inl e | Inr (l, r) \<Rightarrow> skip_lines n r)"

text \<open>\<open>[next(f).strip() for _ in range(n)]\<close>\<close>

fun read_lines :: "nat \<Rightarrow> string \<Rightarrow> error + string list" where
  "read_lines 0 f = Inr []"
| "read_lines (Suc n) f =
     (case next_line f of
        Inl e \<Rightarrow> Inl e
      | Inr (l, r) \<Rightarrow> (case read_lines n r of
                        Inl e \<Rightarrow> Inl e
                      | Inr ls \<Rightarrow> Inr (strip l # ls)))"

text \<open>
  The file is opened anew for every batch. \<open>total_urls - urls_processed\<close> is a natural
  number here; where Python's difference is negative the range is empty as well.
\<close>

definition read_batch :: "string \<Rightarrow> nat \<Rightarrow> nat \<Rightarrow> nat \<Rightarrow> error + string list" where
  "read_batch file batch_size total_urls urls_processed =
     (case skip_lines urls_processed file of
        Inl e \<Rightarrow> Inl e
      | Inr f \<Rightarrow> read_lines (min batch_size (total_urls - urls_processed)) f)"

text \<open>
  \<open>math.ceil(a / b)\<close>, with the division by zero of Python. The quotient is a float in
  the source; it is exact for the sizes a run can have, and is taken as exact.
\<close>

definition py_ceil_div :: "nat \<Rightarrow> nat \<Rightarrow> error + nat" where
  "py_ceil_div a b = (if b = 0 then Inl ZeroDivisionError else Inr ((a + b - 1) div b))"



section \<open>Chunks of a batch\<close>

text \<open>\<open>range(0, stop, step)\<close> raises \<open>ValueError\<close> for the step 0.\<close>

definition py_range_step :: "nat \<Rightarrow> nat \<Rightarrow> error + nat list" where
  "py_range_step stop step =
     (if step = 0 then Inl ValueError
      else Inr (map (\<lambda>k. k * step) [0..<(stop + step - 1) div step]))"

definition url_chunks :: "'a list \<Rightarrow> nat \<Rightarrow> error + 'a list list" where
  "url_chunks batch_urls num_workers =
     (case py_ceil_div (length batch_urls) num_workers of
        Inl e \<Rightarrow> Inl e
      | Inr urls_per_worker \<Rightarrow>
          (case py_range_step (length batch_urls) urls_per_worker of
             Inl e \<Rightarrow> Inl e
           | Inr starts \<Rightarrow> Inr (map (\<lambda>i. take urls_per_worker (drop i batch_urls)) starts)))"

section \<open>Children of a container\<close>

text \<open>
  The specification speaks of the child paragraph elements of a container: the paragraphs
  among its children. The code searches all descendants (\<open>find_all\<close>).
\<close>

fun children :: "node \<Rightarrow> node list" where
  "children (Text s) = []"
| "children (Element n cl at cs) = cs"

definition child_paragraphs :: "node \<Rightarrow> node list" where
  "child_paragraphs c = filter (is_tag ''p'') (children c)"

section \<open>Example pages\<close>

text \<open>A site that answers every request with the same parsed page.\<close>

definition static_web :: "node \<Rightarrow> web" where
  "static_web soup u = Inr soup"

definition page_missing_href :: node where
  "page_missing_href = Element ''[document]'' [] []
     [Element ''a'' [] [(''data-cy'', ''listing-item-link''), (''href'', ''pl/oferta/1'')] [],
      Element ''a'' [] [(''data-cy'', ''listing-item-link'')] []]"

definition pair_container :: "string \<Rightarrow> node list \<Rightarrow> node" where
  "pair_container label value_nodes =
     Element ''div'' [''css-t7cajz'', ''e15n0fyo1''] []
       [Element ''p'' [] [] [Text label], Element ''p'' [] [] value_nodes]"

definition page_two_heating :: node where
  "page_two_heating = Element ''[document]'' [] []
     [pair_container ''Heating:'' [Text '' Gas ''],
      pair_container ''Floor:'' [Text ''3''],
      pair_container ''Heating:'' [Text ''Coal'']]"

definition nested_pair_container :: node where
  "nested_pair_container =
     Element ''div'' [''css-t7cajz'', ''e15n0fyo1''] []
       [Element ''p'' [] [] [Text ''Heating:''],
        Element ''div'' [] [] [Element ''p'' [] [] [Text ''Gas'']]]"

definition span_value :: "string \<Rightarrow> node" where
  "span_value s = Element ''span'' [''css-axw7ok''] [] [Text s]"

definition page_heating_spans :: node where
  "page_heating_spans = Element ''[document]'' [] []
     [pair_container ''Heating:'' [span_value ''Gas'', span_value '' Electric''],
      Element ''div'' [''css-t7cajz'', ''e15n0fyo1''] [] [Element ''p'' [] [] [Text ''Floor:'']],
      pair_container ''Rooms:'' [Text ''2'']]"

definition empty_page :: node where
  "empty_page = Element ''[document]'' [] [] []"

definition page_title_price :: node where
  "page_title_price = Element ''[document]'' [] []
     [Element ''h1'' [''css-wqvm7k'', ''ef3kcx01''] [] [Text '' Flat ''],
      Element ''h1'' [''css-wqvm7k'', ''ef3kcx01''] [] [Text ''Other''],
      pair_container ''Heating:'' [Text ''Gas'']]"

definition urls23 :: "string list" where
  "urls23 = map string_of_nat [0..<23]"



section \<open>A run of the scheduler\<close>

text \<open>
  What \<open>scrape_apartments\<close> is given, with the list of unique URLs it has persisted.
\<close>

record config =
  cfg_web :: web
  cfg_div_class_mapping :: "(string \<times> string) list"
  cfg_label_mapping :: "(string \<times> string) list"
  cfg_num_workers :: nat
  cfg_unique_urls :: "string list"

definition total_urls :: "config \<Rightarrow> nat" where
  "total_urls cfg = length (cfg_unique_urls cfg)"

definition batch_size :: "config \<Rightarrow> nat" where
  "batch_size cfg = cfg_num_workers cfg * 1000"

definition total_batches :: "config \<Rightarrow> error + nat" where
  "total_batches cfg = py_ceil_div (total_urls cfg) (batch_size cfg)"

text \<open>
  One call of \<open>process_urls\<close>: the batch number it was started in, the URLs of its chunk
  still to visit, its \<open>scraped_listings\<close>, and whether it has returned.
\<close>

datatype worker = Worker (w_batch: nat) (w_chunk: "string list") (w_scraped: "details list") (w_done: bool)

text \<open>
  The state of a run: the loop variable \<open>batch_num\<close> of the next batch, the two counters,
  every call of \<open>process_urls\<close> made so far, and the CSV files of the output directory
  (file name and rows; writing to an existing name replaces the file).
\<close>

record state =
  batch_num :: nat
  urls_processed :: nat
  listings_scraped :: nat
  workers :: "worker list"
  csv_files :: "(string \<times> details list) list"

definition init_state :: state where
  "init_state = \<lparr>batch_num = 0, urls_processed = 0, listings_scraped = 0, workers = [], csv_files = []\<rparr>"

definition output_file :: "nat \<Rightarrow> string \<Rightarrow> string" where
  "output_file batch_no worker_timestamp =
     ''apartments_batch_'' @ string_of_nat (batch_no + 1) @ ''_'' @ worker_timestamp @ ''.csv''"

text \<open>
  The head of the loop over the batches: it runs when a batch is left and every worker of
  the batch before has returned (the \<open>with\<close> block of the executor waits for them). It
  reads the batch, advances \<open>urls_processed\<close> and starts one worker per chunk. An
  exception here ends the run: there is no next state.
\<close>

definition start_batch :: "config \<Rightarrow> state \<Rightarrow> state option" where
  "start_batch cfg s =
     (case total_batches cfg of
        Inl e \<Rightarrow> None
      | Inr n \<Rightarrow>
          if batch_num s < n \<and> list_all w_done (workers s) then
            (case read_batch (write_urls (cfg_unique_urls cfg)) (batch_size cfg) (total_urls cfg)
                    (urls_processed s) of
               Inl e \<Rightarrow> None
             | Inr batch_urls \<Rightarrow>
                 (case url_chunks batch_urls (cfg_num_workers cfg) of
                    Inl e \<Rightarrow> None
                  | Inr chunks \<Rightarrow>
                      Some (s\<lparr>urls_processed := urls_processed s + length batch_urls,
                              batch_num := batch_num s + 1,
                              workers := workers s @ map (\<lambda>c. Worker (batch_num s) c [] False) chunks\<rparr>)))
          else None)"

text \<open>
  One pass of the loop of \<open>process_urls\<close> in worker \<open>i\<close>: the next URL of its chunk is
  fetched; a record that is not empty is appended and counted, under the lock, so that the
  pass is one step for the counter. The progress line and the pauses change no variable.
\<close>

definition scrape_url :: "config \<Rightarrow> nat \<Rightarrow> state \<Rightarrow> state option" where
  "scrape_url cfg i s =
     (if i < length (workers s) then
        (case workers s ! i of
           Worker b (url # rest) scraped False \<Rightarrow>
             (let details = get_listing_details (cfg_web cfg) url
                              (cfg_div_class_mapping cfg) (cfg_label_mapping cfg)
              in if details \<noteq> [] then
                   Some (s\<lparr>workers := (workers s)[i := Worker b rest (scraped @ [details]) False],
                           listings_scraped := listings_scraped s + 1\<rparr>)
                 else Some (s\<lparr>workers := (workers s)[i := Worker b rest scraped False]\<rparr>))
         | _ \<Rightarrow> None)
      else None)"

text \<open>
  The end of \<open>process_urls\<close> in worker \<open>i\<close>, its chunk being exhausted: the records, if
  there are any, are written to the file named by the batch number and by the time read
  from the clock at that moment, \<open>worker_timestamp\<close>, a string to the second.
\<close>

definition save_chunk :: "nat \<Rightarrow> string \<Rightarrow> state \<Rightarrow> state option" where
  "save_chunk i worker_timestamp s =
     (if i < length (workers s) then
        (case workers s ! i of
           Worker b [] scraped False \<Rightarrow>
             Some (s\<lparr>workers := (workers s)[i := Worker b [] scraped True],
                     csv_files := (if scraped \<noteq> []
                                   then dict_set (output_file b worker_timestamp) scraped (csv_files s)
                                   else csv_files s)\<rparr>)
         | _ \<Rightarrow> None)
      else None)"

text \<open>
  The workers of a batch run concurrently. A run is a schedule: the sequence of the steps
  taken, in the order in which they take effect, with the clock readings of the saves.
\<close>

datatype action = Next_batch | Scrape nat | Save nat string

fun apply_action :: "config \<Rightarrow> action \<Rightarrow> state \<Rightarrow> state option" where
  "apply_action cfg Next_batch s = start_batch cfg s"
| "apply_action cfg (Scrape i) s = scrape_url cfg i s"
| "apply_action cfg (Save i worker_timestamp) s = save_chunk i worker_timestamp s"

fun run :: "config \<Rightarrow> action list \<Rightarrow> state \<Rightarrow> state option" where
  "run cfg [] s = Some s"
| "run cfg (a # as) s = (case apply_action cfg a s of None \<Rightarrow> None | Some s' \<Rightarrow> run cfg as s')"

definition two_url_config :: config where
  "two_url_config = \<lparr>cfg_web = static_web empty_page, cfg_div_class_mapping = [],
     cfg_label_mapping = [], cfg_num_workers = 2, cfg_unique_urls = [''a'', ''b'']\<rparr>"

text \<open>
  Two counts over the workers: the URLs still to visit, and the records accumulated.
\<close>

definition pending :: "worker list \<Rightarrow> nat" where
  "pending ws = sum_list (map (\<lambda>w. length (w_chunk w)) ws)"

definition scraped_count :: "worker list \<Rightarrow> nat" where
  "scraped_count ws = sum_list (map (\<lambda>w. length (w_scraped w)) ws)"

text \<open>The invariant of a run.\<close>

definition run_inv :: "config \<Rightarrow> state \<Rightarrow> bool" where
  "run_inv cfg s =
     (listings_scraped s = scraped_count (workers s)
      \<and> pending (workers s) + scraped_count (workers s) \<le> urls_processed s
      \<and> urls_processed s \<le> total_urls cfg
      \<and> list_all (\<lambda>w. list_all (\<lambda>d. d \<noteq> []) (w_scraped w)) (workers s))"

text \<open>A site on which the page of \<open>a\<close> is served and every other request fails.\<close>

definition half_web :: web where
  "half_web u = (if u = ''a'' then Inr empty_page else Inl FetchError)"

definition half_config :: config where
  "half_config = \<lparr>cfg_web = half_web, cfg_div_class_mapping = [], cfg_label_mapping = [],
     cfg_num_workers = 2, cfg_unique_urls = [''a'', ''b'']\<rparr>"


section \<open>Dictionaries\<close>

lemma map_of_dict_set: "map_of (dict_set k v d) = (map_of d)(k \<mapsto> v)"
  by (induction d) (auto simp: fun_eq_iff)

lemma map_fst_dict_set:
  "map fst (dict_set k v d) = (if k \<in> set (map fst d) then map fst d else map fst d @ [k])"
  by (induction d) (fastforce simp: image_iff)+

lemma keys_dict_set: "set (map fst (dict_set k v d)) = insert k (set (map fst d))"
  by (auto simp: map_fst_dict_set)

lemma distinct_dict_set: "distinct (map fst d) \<Longrightarrow> distinct (map fst (dict_set k v d))"
  by (simp add: map_fst_dict_set)

lemma length_dict_set:
  "length (dict_set k v d) = (if k \<in> set (map fst d) then length d else Suc (length d))"
  using arg_cong [OF map_fst_dict_set [of k v d], of length] by (simp split: if_splits)

section \<open>Listing links\<close>

lemma link_urls_KeyError:
  "\<exists>l\<in>set ls. attr ''href'' l = None \<Longrightarrow> link_urls ls = Inl KeyError"
proof (induction ls)
  case Nil
  then show ?case by simp
next
  case (Cons a ls)
  show ?case
  proof (cases "attr ''href'' a")
    case None
    then show ?thesis by simp
  next
    case (Some h)
    with Cons.prems have "\<exists>l\<in>set ls. attr ''href'' l = None" by auto
    then have "link_urls ls = Inl KeyError" by (rule Cons.IH)
    with Some show ?thesis by simp
  qed
qed

lemma link_urls_ok:
  "\<forall>l\<in>set ls. attr ''href'' l \<noteq> None \<Longrightarrow>
   link_urls ls = Inr (map (\<lambda>l. ''https://www.otodom.pl/'' @ the (attr ''href'' l)) ls)"
  by (induction ls) (auto split: option.splits sum.splits)

text \<open>
  C9. When the results page of a URL is fetched and parsed, and one of its anchors carrying
  the listing-item marker has no \<open>href\<close> attribute, the lookup raises \<open>KeyError\<close> inside
  the \<open>try\<close> block and \<open>get_listings_page\<close> returns the empty list: the links of the
  well-formed anchors of the page are lost with it.
\<close>

theorem get_listings_page_missing_href:
  assumes "web u = Inr soup"
    and "l \<in> set (find_all is_listing_link soup)"
    and "attr ''href'' l = None"
  shows "get_listings_page_try web u = Inl KeyError \<and> get_listings_page web u = []"
proof -
  have "link_urls (find_all is_listing_link soup) = Inl KeyError"
    using assms(2,3) by (intro link_urls_KeyError) blast
  with assms(1) show ?thesis
    by (simp add: get_listings_page_def get_listings_page_try_def)
qed

theorem get_listings_page_missing_href_witness:
  "static_web page_missing_href ''p'' = Inr page_missing_href
   \<and> Element ''a'' [] [(''data-cy'', ''listing-item-link'')] []
       \<in> set (find_all is_listing_link page_missing_href)
   \<and> attr ''href'' (Element ''a'' [] [(''data-cy'', ''listing-item-link'')] []) = None
   \<and> length (find_all is_listing_link page_missing_href) = 2
   \<and> get_listings_page (static_web page_missing_href) ''p'' = []"
  using get_listings_page_missing_href [of "static_web page_missing_href" "''p''" page_missing_href
              "Element ''a'' [] [(''data-cy'', ''listing-item-link'')] []"]
  by (simp add: static_web_def page_missing_href_def find_all_def is_listing_link_def)

section \<open>Label and value pairs\<close>

text \<open>What a container does to a dictionary is what it does to the empty one.\<close>

lemma container_step_cases:
  "container_step labels r c =
     (case container_step labels [] c of [] \<Rightarrow> r | (l, v) # _ \<Rightarrow> dict_set l v r)"
  by (auto simp: container_step_def Let_def split: list.splits)

lemma foldl_step_other:
  "\<forall>c\<in>set cs. \<forall>v. container_step labels [] c \<noteq> [(l, v)] \<Longrightarrow>
   map_of (foldl (container_step labels) r cs) l = map_of r l"
proof (induction cs arbitrary: r)
  case Nil
  then show ?case by simp
next
  case (Cons c cs)
  have "map_of (container_step labels r c) l = map_of r l"
    using Cons.prems
    by (subst container_step_cases)
       (auto simp: map_of_dict_set container_step_def Let_def split: list.splits)
  with Cons show ?case by simp
qed

text \<open>
  C10. When several containers of the container class yield the same label, the dictionary
  returned by \<open>extract_label_value_pairs\<close> holds the value of the last of them in document
  order: a container that yields \<open>l \<mapsto> v\<close> and is followed by no container yielding
  \<open>l\<close> decides the entry of \<open>l\<close>, whatever the containers before it yield.
\<close>

theorem extract_label_value_pairs_last_wins:
  assumes "find_all (is_container cc) soup = pre @ c # post"
    and "container_step labels [] c = [(l, v)]"
    and "\<forall>c'\<in>set post. \<forall>v'. container_step labels [] c' \<noteq> [(l, v')]"
  shows "map_of (extract_label_value_pairs soup labels cc) l = Some v"
proof -
  let ?r = "foldl (container_step labels) [] pre"
  have "container_step labels ?r c = dict_set l v ?r"
    by (subst container_step_cases) (simp add: assms(2))
  then have "map_of (foldl (container_step labels) [] (pre @ [c])) l = Some v"
    by (simp add: map_of_dict_set)
  moreover have "foldl (container_step labels) [] (pre @ c # post)
      = foldl (container_step labels) (foldl (container_step labels) [] (pre @ [c])) post"
    by simp
  ultimately show ?thesis
    using foldl_step_other [OF assms(3)]
    by (simp only: extract_label_value_pairs_def assms(1))
qed

theorem extract_label_value_pairs_last_wins_witness:
  "find_all (is_container container_class) page_two_heating
     = [pair_container ''Heating:'' [Text '' Gas ''], pair_container ''Floor:'' [Text ''3'']]
       @ pair_container ''Heating:'' [Text ''Coal''] # []
   \<and> container_step [''Heating:'', ''Floor:''] [] (pair_container ''Heating:'' [Text '' Gas ''])
       = [(''Heating:'', ''Gas'')]
   \<and> container_step [''Heating:'', ''Floor:''] [] (pair_container ''Heating:'' [Text ''Coal''])
       = [(''Heating:'', ''Coal'')]
   \<and> map_of (extract_label_value_pairs page_two_heating [''Heating:'', ''Floor:''] container_class)
         ''Heating:'' = Some ''Coal''"
  using extract_label_value_pairs_last_wins [of container_class page_two_heating
      "[pair_container ''Heating:'' [Text '' Gas ''], pair_container ''Floor:'' [Text ''3'']]"
      "pair_container ''Heating:'' [Text ''Coal'']" "[]"
      "[''Heating:'', ''Floor:'']" "''Heating:''" "''Coal''"]
  by (simp add: page_two_heating_def pair_container_def find_all_def is_container_def
      container_class_def container_step_def strip_def is_space_def is_value_span_def)

lemma foldl_step_skip:
  assumes "container_step labels [] c = []"
  shows "foldl (container_step labels) r (pre @ c # post) = foldl (container_step labels) r (pre @ post)"
proof -
  have "container_step labels (foldl (container_step labels) r pre) c = foldl (container_step labels) r pre"
    by (subst container_step_cases) (simp add: assms)
  then show ?thesis by simp
qed

text \<open>
  C2, as the code has it. For a container \<open>c\<close> of the container class, with the
  paragraphs found by the recursive search below it (at any depth, not only its children):
  when the search finds exactly the two paragraphs \<open>p0\<close> and \<open>p1\<close>, the trimmed text of
  \<open>p0\<close> is one of the labels to find and no later container yields that label, the label
  maps to the trimmed texts of the value spans of \<open>p1\<close> joined by \<open>''; ''\<close> when there is
  one, and to the trimmed text of \<open>p1\<close> otherwise; when the search finds another number of
  paragraphs, or the label is not among the labels to find, the container contributes
  nothing: the dictionary is the one of the page without it.
\<close>

theorem extract_label_value_pairs_container:
  assumes "find_all (is_container cc) soup = pre @ c # post"
  shows "(find_all (is_tag ''p'') c = [p0, p1] \<and> strip (get_text p0) \<in> set labels
          \<and> (\<forall>c'\<in>set post. \<forall>v'. container_step labels [] c' \<noteq> [(strip (get_text p0), v')])
          \<longrightarrow> map_of (extract_label_value_pairs soup labels cc) (strip (get_text p0))
               = Some (if find_all is_value_span p1 \<noteq> []
                       then join ''; '' (map (\<lambda>span. strip (get_text span)) (find_all is_value_span p1))
                       else strip (get_text p1)))
       \<and> (length (find_all (is_tag ''p'') c) \<noteq> 2
            \<or> strip (get_text (hd (find_all (is_tag ''p'') c))) \<notin> set labels
          \<longrightarrow> extract_label_value_pairs soup labels cc = foldl (container_step labels) [] (pre @ post))"
proof (intro conjI impI)
  assume a: "find_all (is_tag ''p'') c = [p0, p1] \<and> strip (get_text p0) \<in> set labels
          \<and> (\<forall>c'\<in>set post. \<forall>v'. container_step labels [] c' \<noteq> [(strip (get_text p0), v')])"
  let ?l = "strip (get_text p0)"
  let ?v = "if find_all is_value_span p1 \<noteq> []
            then join ''; '' (map (\<lambda>span. strip (get_text span)) (find_all is_value_span p1))
            else strip (get_text p1)"
  let ?r = "foldl (container_step labels) [] pre"
  from a have "container_step labels ?r c = dict_set ?l ?v ?r"
    by (simp add: container_step_def)
  then have "map_of (foldl (container_step labels) [] (pre @ [c])) ?l = Some ?v"
    by (simp add: map_of_dict_set)
  moreover from a have "map_of (foldl (container_step labels) (foldl (container_step labels) [] (pre @ [c])) post) ?l
      = map_of (foldl (container_step labels) [] (pre @ [c])) ?l"
    by (intro foldl_step_other) simp
  ultimately show "map_of (extract_label_value_pairs soup labels cc) ?l = Some ?v"
    by (simp add: extract_label_value_pairs_def assms)
next
  assume b: "length (find_all (is_tag ''p'') c) \<noteq> 2
            \<or> strip (get_text (hd (find_all (is_tag ''p'') c))) \<notin> set labels"
  then have "container_step labels [] c = []"
    by (auto simp: container_step_def Let_def split: list.splits)
  then show "extract_label_value_pairs soup labels cc = foldl (container_step labels) [] (pre @ post)"
    by (simp add: extract_label_value_pairs_def assms foldl_step_skip del: foldl_append)
qed

theorem extract_label_value_pairs_container_witness:
  "find_all (is_container container_class) page_heating_spans
     = [] @ pair_container ''Heating:'' [span_value ''Gas'', span_value '' Electric'']
          # [Element ''div'' [''css-t7cajz'', ''e15n0fyo1''] [] [Element ''p'' [] [] [Text ''Floor:'']],
             pair_container ''Rooms:'' [Text ''2'']]
   \<and> map_of (extract_label_value_pairs page_heating_spans [''Heating:'', ''Floor:''] container_class)
        ''Heating:'' = Some ''Gas; Electric''
   \<and> length (find_all (is_tag ''p'')
        (Element ''div'' [''css-t7cajz'', ''e15n0fyo1''] [] [Element ''p'' [] [] [Text ''Floor:'']])) \<noteq> 2
   \<and> extract_label_value_pairs page_heating_spans [''Heating:'', ''Floor:''] container_class
       = foldl (container_step [''Heating:'', ''Floor:'']) []
           [pair_container ''Heating:'' [span_value ''Gas'', span_value '' Electric''],
            pair_container ''Rooms:'' [Text ''2'']]
   \<and> ''Rooms:'' \<notin> set [''Heating:'', ''Floor:'']
   \<and> extract_label_value_pairs page_heating_spans [''Heating:'', ''Floor:''] container_class
       = foldl (container_step [''Heating:'', ''Floor:'']) []
           [pair_container ''Heating:'' [span_value ''Gas'', span_value '' Electric''],
            Element ''div'' [''css-t7cajz'', ''e15n0fyo1''] [] [Element ''p'' [] [] [Text ''Floor:'']]]"
  using
    extract_label_value_pairs_container [of container_class page_heating_spans "[]"
      "pair_container ''Heating:'' [span_value ''Gas'', span_value '' Electric'']"
      "[Element ''div'' [''css-t7cajz'', ''e15n0fyo1''] [] [Element ''p'' [] [] [Text ''Floor:'']],
        pair_container ''Rooms:'' [Text ''2'']]"
      "Element ''p'' [] [] [Text ''Heating:'']"
      "Element ''p'' [] [] [span_value ''Gas'', span_value '' Electric'']"
      "[''Heating:'', ''Floor:'']"]
    extract_label_value_pairs_container [of container_class page_heating_spans
      "[pair_container ''Heating:'' [span_value ''Gas'', span_value '' Electric'']]"
      "Element ''div'' [''css-t7cajz'', ''e15n0fyo1''] [] [Element ''p'' [] [] [Text ''Floor:'']]"
      "[pair_container ''Rooms:'' [Text ''2'']]" _ _
      "[''Heating:'', ''Floor:'']"]
    extract_label_value_pairs_container [of container_class page_heating_spans
      "[pair_container ''Heating:'' [span_value ''Gas'', span_value '' Electric''],
        Element ''div'' [''css-t7cajz'', ''e15n0fyo1''] [] [Element ''p'' [] [] [Text ''Floor:'']]]"
      "pair_container ''Rooms:'' [Text ''2'']" "[]" _ _
      "[''Heating:'', ''Floor:'']"]
  by (simp add: page_heating_spans_def pair_container_def span_value_def find_all_def
      is_container_def container_class_def container_step_def strip_def is_space_def
      is_value_span_def)

text \<open>
  C2 as stated speaks of child paragraphs. A container with a single child paragraph and a
  second paragraph nested in an inner \<open>div\<close> has not two child paragraphs, and yet it
  gives an entry.
\<close>

theorem extract_label_value_pairs_child_counterexample:
  "find_all (is_container container_class) (Element ''[document]'' [] [] [nested_pair_container])
     = [nested_pair_container]
   \<and> length (child_paragraphs nested_pair_container) \<noteq> 2
   \<and> extract_label_value_pairs (Element ''[document]'' [] [] [nested_pair_container])
        [''Heating:''] container_class = [(''Heating:'', ''Gas'')]"
  by (simp add: nested_pair_container_def child_paragraphs_def find_all_def is_container_def
      container_class_def extract_label_value_pairs_def container_step_def strip_def is_space_def
      is_value_span_def)


section \<open>The record of a listing\<close>

lemma keys_direct_fields:
  "set (map fst (direct_fields soup m d)) = set (map fst d) \<union> set (map fst m)"
  by (induction soup m d rule: direct_fields.induct) (auto simp: keys_dict_set simp del: set_map)

lemma keys_label_fields:
  "set (map fst (label_fields lv m d)) = set (map fst d) \<union> set (map fst m)"
  by (induction lv m d rule: label_fields.induct) (auto simp: keys_dict_set simp del: set_map)

lemma map_of_direct_fields_other:
  "k \<notin> set (map fst m) \<Longrightarrow> map_of (direct_fields soup m d) k = map_of d k"
  by (induction soup m d rule: direct_fields.induct) (auto simp: map_of_dict_set)

lemma map_of_label_fields_other:
  "k \<notin> set (map fst m) \<Longrightarrow> map_of (label_fields lv m d) k = map_of d k"
  by (induction lv m d rule: label_fields.induct) (auto simp: map_of_dict_set)

lemma map_of_direct_fields_in:
  "distinct (map fst m) \<Longrightarrow> (f, sel) \<in> set m \<Longrightarrow>
   map_of (direct_fields soup m d) f =
     Some (case find_first (has_class sel) soup of None \<Rightarrow> None
           | Some element \<Rightarrow> Some (strip (get_text element)))"
proof (induction soup m d rule: direct_fields.induct)
  case (1 soup d)
  then show ?case by simp
next
  case (2 soup field selector m d)
  show ?case
  proof (cases "(f, sel) = (field, selector)")
    case True
    with "2.prems" have "f \<notin> set (map fst m)" by auto
    with True show ?thesis by (simp add: map_of_direct_fields_other map_of_dict_set)
  next
    case False
    with "2.prems" have "(f, sel) \<in> set m" "distinct (map fst m)" by auto
    then show ?thesis using "2.IH" by simp
  qed
qed

lemma distinct_direct_fields:
  "distinct (map fst d) \<Longrightarrow> distinct (map fst (direct_fields soup m d))"
  by (induction soup m d rule: direct_fields.induct) (auto simp: distinct_dict_set)

lemma distinct_label_fields:
  "distinct (map fst d) \<Longrightarrow> distinct (map fst (label_fields lv m d))"
  by (induction lv m d rule: label_fields.induct) (auto simp: distinct_dict_set)

text \<open>
  C1, as the code has it. When the page of a listing URL is fetched and parsed, the keys of
  the record returned by \<open>get_listing_details\<close> are exactly \<open>url\<close>, the field names of
  \<open>div_class_mapping\<close> and the field names of \<open>label_mapping\<close>, each once; the field
  \<open>url\<close> holds the input URL provided that \<open>url\<close> is not a field name of either mapping;
  and a direct-selector field that is not also a field name of \<open>label_mapping\<close> holds the
  trimmed text of the first element matching its selector class, or \<open>None\<close> when no
  element matches.
\<close>

theorem get_listing_details_record:
  assumes "web listing_url = Inr soup"
  shows "set (map fst (get_listing_details web listing_url dcm lm))
           = {''url''} \<union> set (map fst dcm) \<union> set (map fst lm)
       \<and> distinct (map fst (get_listing_details web listing_url dcm lm))
       \<and> (''url'' \<notin> set (map fst dcm) \<union> set (map fst lm)
            \<longrightarrow> map_of (get_listing_details web listing_url dcm lm) ''url'' = Some (Some listing_url))
       \<and> (distinct (map fst dcm) \<longrightarrow>
            (\<forall>(field, selector) \<in> set dcm. field \<notin> set (map fst lm) \<longrightarrow>
               map_of (get_listing_details web listing_url dcm lm) field
                 = Some (case find_first (has_class selector) soup of
                           None \<Rightarrow> None
                         | Some element \<Rightarrow> Some (strip (get_text element)))))"
proof -
  let ?d = "direct_fields soup dcm [(''url'', Some listing_url)]"
  let ?lv = "extract_label_value_pairs soup (map snd lm) container_class"
  have g: "get_listing_details web listing_url dcm lm = label_fields ?lv lm ?d"
    using assms by (simp add: get_listing_details_def)
  have keys: "set (map fst (label_fields ?lv lm ?d)) = {''url''} \<union> set (map fst dcm) \<union> set (map fst lm)"
    by (simp add: keys_direct_fields keys_label_fields del: set_map)
  have dist: "distinct (map fst (label_fields ?lv lm ?d))"
    by (simp add: distinct_direct_fields distinct_label_fields)
  have url: "map_of (label_fields ?lv lm ?d) ''url'' = Some (Some listing_url)"
    if "''url'' \<notin> set (map fst dcm) \<union> set (map fst lm)"
    using that by (simp add: map_of_label_fields_other map_of_direct_fields_other del: set_map)
  have direct: "map_of (label_fields ?lv lm ?d) field
                 = Some (case find_first (has_class selector) soup of
                           None \<Rightarrow> None
                         | Some element \<Rightarrow> Some (strip (get_text element)))"
    if "distinct (map fst dcm)" "(field, selector) \<in> set dcm" "field \<notin> set (map fst lm)"
    for field selector
    using that by (simp add: map_of_label_fields_other map_of_direct_fields_in del: set_map)
  show ?thesis
    unfolding g using keys dist url direct by blast
qed

theorem get_listing_details_record_witness:
  "static_web page_title_price ''u'' = Inr page_title_price
   \<and> set (map fst (get_listing_details (static_web page_title_price) ''u''
         [(''title'', ''css-wqvm7k ef3kcx01''), (''price'', ''css-1o51x5a e1k1vyr21'')]
         [(''heating'', ''Heating:''), (''floor'', ''Floor:'')]))
       = {''url'', ''title'', ''price'', ''heating'', ''floor''}
   \<and> map_of (get_listing_details (static_web page_title_price) ''u''
         [(''title'', ''css-wqvm7k ef3kcx01''), (''price'', ''css-1o51x5a e1k1vyr21'')]
         [(''heating'', ''Heating:''), (''floor'', ''Floor:'')]) ''url'' = Some (Some ''u'')
   \<and> map_of (get_listing_details (static_web page_title_price) ''u''
         [(''title'', ''css-wqvm7k ef3kcx01''), (''price'', ''css-1o51x5a e1k1vyr21'')]
         [(''heating'', ''Heating:''), (''floor'', ''Floor:'')]) ''title'' = Some (Some ''Flat'')
   \<and> map_of (get_listing_details (static_web page_title_price) ''u''
         [(''title'', ''css-wqvm7k ef3kcx01''), (''price'', ''css-1o51x5a e1k1vyr21'')]
         [(''heating'', ''Heating:''), (''floor'', ''Floor:'')]) ''price'' = Some None"
  using get_listing_details_record [of "static_web page_title_price" "''u''" page_title_price
      "[(''title'', ''css-wqvm7k ef3kcx01''), (''price'', ''css-1o51x5a e1k1vyr21'')]"
      "[(''heating'', ''Heating:''), (''floor'', ''Floor:'')]"]
  by (simp add: static_web_def page_title_price_def pair_container_def find_first_def find_all_def
      strip_def is_space_def insert_commute)

text \<open>
  C1 as stated fails for a mapping that has a field named \<open>url\<close>: the loop over the
  mapping overwrites the entry, here with \<open>None\<close>.
\<close>

theorem get_listing_details_url_counterexample:
  "static_web empty_page ''u'' = Inr empty_page
   \<and> map_of (get_listing_details (static_web empty_page) ''u'' [(''url'', ''c'')] []) ''url''
       \<noteq> Some (Some ''u'')"
  by (simp add: static_web_def empty_page_def get_listing_details_def find_first_def find_all_def
      extract_label_value_pairs_def)

section \<open>Chunks\<close>

lemma concat_slices: "concat (map (\<lambda>k. take n (drop (k * n) xs)) [0..<m]) = take (m * n) xs"
proof (induction m)
  case 0
  then show ?case by simp
next
  case (Suc m)
  have "take (m * n + n) xs = take (m * n) xs @ take n (drop (m * n) xs)"
    by (rule take_add)
  with Suc show ?case by (simp add: add.commute)
qed

lemma ceil_div_mult_ge: "0 < n \<Longrightarrow> a \<le> ((a + n - 1) div n) * n" for a n :: nat
proof -
  assume n: "0 < n"
  have "a + n - 1 = ((a + n - 1) div n) * n + (a + n - 1) mod n" by simp
  moreover have "(a + n - 1) mod n \<le> n - 1" using n by (simp add: Suc_leI less_Suc_eq_le[symmetric])
  ultimately show ?thesis using n by linarith
qed

lemma ceil_div_pred_mult_less:
  "0 < n \<Longrightarrow> 0 < a \<Longrightarrow> ((a + n - 1) div n - 1) * n < a" for a n :: nat
proof -
  assume n: "0 < n" and a: "0 < a"
  let ?m = "(a + n - 1) div n"
  have "?m * n \<le> a + n - 1" by simp
  moreover have "1 \<le> ?m" using n a by (simp add: Suc_le_eq div_greater_zero_iff)
  then obtain k where "?m = Suc k" by (cases ?m) auto
  then have "(?m - 1) * n + n = ?m * n" by simp
  ultimately show ?thesis using n a by linarith
qed

lemma ceil_div_pos: "0 < n \<Longrightarrow> 0 < a \<Longrightarrow> 0 < (a + n - 1) div n" for a n :: nat
  by (simp add: div_greater_zero_iff)

lemma ceil_ceil_le:
  fixes a w :: nat
  assumes "0 < w" "0 < a"
  shows "(a + (a + w - 1) div w - 1) div ((a + w - 1) div w) \<le> w"
proof -
  let ?n = "(a + w - 1) div w"
  have n: "0 < ?n" using assms by (rule ceil_div_pos)
  have "a \<le> ?n * w" using assms(1) by (rule ceil_div_mult_ge)
  then have "a + ?n - 1 < (w + 1) * ?n" using n assms by (simp add: mult.commute)
  then have "(a + ?n - 1) div ?n < w + 1"
    using n by (simp add: less_mult_imp_div_less)
  then show ?thesis by simp
qed


lemma url_chunks_slices:
  assumes "xs \<noteq> []" "0 < w"
  shows "url_chunks xs w =
           Inr (map (\<lambda>k. take ((length xs + w - 1) div w) (drop (k * ((length xs + w - 1) div w)) xs))
                  [0..<(length xs + (length xs + w - 1) div w - 1) div ((length xs + w - 1) div w)])"
proof -
  have "0 < (length xs + w - 1) div w"
    using assms by (intro ceil_div_pos) simp_all
  then show ?thesis
    using assms by (simp add: url_chunks_def py_ceil_div_def py_range_step_def comp_def)
qed

lemma upt_5: "[0..<5] = [0, 1, 2, 3, 4]"
  by (simp add: upt_rec)

text \<open>
  C3, as the code has it. A non-empty batch and at least one worker give chunks without
  error; the chunks are the consecutive slices of the batch of size
  \<open>ceil(batchLen / numWorkers)\<close>, their concatenation in order is the batch, there is at
  least one chunk and there are at most \<open>numWorkers\<close> (as many as it takes to cover the
  batch, so no chunk is empty), every chunk but the last has the full size and the last has
  between one element and the full size. In particular 23 URLs and 5 workers give one batch
  and chunks of the sizes 5, 5, 5, 5, 3.
\<close>

theorem url_chunks_partition:
  assumes "batch_urls \<noteq> []" and "1 \<le> num_workers"
  shows "\<exists>chunks. url_chunks batch_urls num_workers = Inr chunks
     \<and> concat chunks = batch_urls
     \<and> 1 \<le> length chunks \<and> length chunks \<le> num_workers
     \<and> (\<forall>k<length chunks. chunks ! k
            = take ((length batch_urls + num_workers - 1) div num_workers)
                (drop (k * ((length batch_urls + num_workers - 1) div num_workers)) batch_urls))
     \<and> (\<forall>k. k + 1 < length chunks \<longrightarrow>
            length (chunks ! k) = (length batch_urls + num_workers - 1) div num_workers)
     \<and> 1 \<le> length (last chunks)
     \<and> length (last chunks) \<le> (length batch_urls + num_workers - 1) div num_workers
     \<and> (length batch_urls = 23 \<and> num_workers = 5 \<longrightarrow>
            py_ceil_div (length batch_urls) (num_workers * 1000) = Inr 1
            \<and> map length chunks = [5, 5, 5, 5, 3])"
proof -
  let ?a = "length batch_urls"
  let ?n = "(?a + num_workers - 1) div num_workers"
  let ?m = "(?a + ?n - 1) div ?n"
  let ?chunks = "map (\<lambda>k. take ?n (drop (k * ?n) batch_urls)) [0..<?m]"
  have a: "0 < ?a" and w: "0 < num_workers" using assms by simp_all
  have n: "0 < ?n" using w a by (rule ceil_div_pos)
  have m: "0 < ?m" using n a by (rule ceil_div_pos)
  define chunks where "chunks = ?chunks"
  have eq: "url_chunks batch_urls num_workers = Inr chunks"
    unfolding chunks_def using assms(1) w by (rule url_chunks_slices)
  have len: "length chunks = ?m" by (simp add: chunks_def)
  have cat: "concat chunks = batch_urls"
    using ceil_div_mult_ge [OF n, of ?a] by (simp add: chunks_def concat_slices)
  have le: "?m \<le> num_workers" using w a by (rule ceil_ceil_le)
  have nth: "chunks ! k = take ?n (drop (k * ?n) batch_urls)" if "k < ?m" for k
    using that by (simp add: chunks_def)
  have before: "(?m - 1) * ?n < ?a" using n a by (rule ceil_div_pred_mult_less)
  have full: "length (chunks ! k) = ?n" if "k + 1 < ?m" for k
  proof -
    from that have "k + 1 \<le> ?m - 1" by simp
    then have "(k + 1) * ?n \<le> (?m - 1) * ?n" by (rule mult_le_mono1)
    with before have "k * ?n + ?n \<le> ?a" by simp
    with that show ?thesis by (simp add: chunks_def)
  qed
  have last: "last chunks = take ?n (drop ((?m - 1) * ?n) batch_urls)"
    using m by (simp add: chunks_def last_map last_upt)
  have "length (last chunks) = min (?a - (?m - 1) * ?n) ?n"
    unfolding last by simp
  with before n have last1: "1 \<le> length (last chunks)"
    by linarith
  have last2: "length (last chunks) \<le> ?n"
    unfolding last by simp
  have ex: "py_ceil_div ?a (num_workers * 1000) = Inr 1 \<and> map length chunks = [5, 5, 5, 5, 3]"
    if "?a = 23 \<and> num_workers = 5"
    using that by (simp add: chunks_def upt_5 py_ceil_div_def)
  have c1: "1 \<le> length chunks" and c2: "length chunks \<le> num_workers"
    using m le by (simp_all add: len)
  have c3: "\<forall>k<length chunks. chunks ! k = take ?n (drop (k * ?n) batch_urls)"
    using nth by (simp add: len)
  have c4: "\<forall>k. k + 1 < length chunks \<longrightarrow> length (chunks ! k) = ?n"
    using full by (simp add: len)
  have c5: "?a = 23 \<and> num_workers = 5 \<longrightarrow>
      py_ceil_div ?a (num_workers * 1000) = Inr 1 \<and> map length chunks = [5, 5, 5, 5, 3]"
    using ex by (rule impI)
  show ?thesis
    by (rule exI [of _ chunks]) (intro conjI eq cat c1 c2 c3 c4 last1 last2 c5)
qed

text \<open>
  C3 as stated asks for \<open>numWorkers\<close> chunks. Six URLs and four workers give three chunks
  of two.
\<close>

theorem url_chunks_count_counterexample:
  "url_chunks [''a'', ''b'', ''c'', ''d'', ''e'', ''f''] 4
     = Inr [[''a'', ''b''], [''c'', ''d''], [''e'', ''f'']]
   \<and> length [[''a'', ''b''], [''c'', ''d''], [''e'', ''f'']] \<noteq> (4::nat)"
  by (simp add: url_chunks_def py_ceil_div_def py_range_step_def upt_rec)


theorem url_chunks_partition_witness:
  "urls23 \<noteq> [] \<and> (1::nat) \<le> 5 \<and> length urls23 = 23
   \<and> (\<exists>chunks. url_chunks urls23 5 = Inr chunks \<and> concat chunks = urls23
         \<and> length chunks = 5 \<and> map length chunks = [5, 5, 5, 5, 3])"
proof -
  have h: "urls23 \<noteq> []" and l: "length urls23 = 23"
    by (simp_all add: urls23_def)
  have w: "(1::nat) \<le> 5" by simp
  from url_chunks_partition [OF h w] obtain chunks where
    "url_chunks urls23 5 = Inr chunks" "concat chunks = urls23"
    "length urls23 = 23 \<and> (5::nat) = 5 \<longrightarrow>
       py_ceil_div (length urls23) (5 * 1000) = Inr 1 \<and> map length chunks = [5, 5, 5, 5, 3]"
    by (elim exE conjE) (rule that; assumption)
  moreover from this l have "map length chunks = [5, 5, 5, 5, 3]" by simp
  moreover from this have "length chunks = 5"
    using length_map [of length chunks] by simp
  ultimately show ?thesis using h l by auto
qed

section \<open>Deduplication\<close>



section \<open>Reading back the persisted URLs\<close>











section \<open>Invariants of a run\<close>

lemma read_lines_length: "read_lines n f = Inr ls \<Longrightarrow> length ls = n"
  by (induction n arbitrary: f ls) (auto split: sum.splits prod.splits)

lemma read_batch_length:
  "read_batch file bs n up = Inr b \<Longrightarrow> length b = min bs (n - up)"
  by (auto simp: read_batch_def split: sum.splits dest: read_lines_length)

lemma url_chunks_concat:
  assumes "url_chunks xs w = Inr cs"
  shows "concat cs = xs"
proof -
  let ?n = "(length xs + w - 1) div w"
  from assms have w: "w \<noteq> 0" and n: "?n \<noteq> 0"
    by (auto simp: url_chunks_def py_ceil_div_def py_range_step_def split: if_splits)
  with assms have "cs = map (\<lambda>k. take ?n (drop (k * ?n) xs)) [0..<(length xs + ?n - 1) div ?n]"
    by (simp add: url_chunks_def py_ceil_div_def py_range_step_def comp_def)
  moreover have "length xs \<le> ((length xs + ?n - 1) div ?n) * ?n"
    using n by (intro ceil_div_mult_ge) simp
  ultimately show ?thesis by (simp add: concat_slices)
qed

lemma sum_list_map_update:
  fixes f :: "'a \<Rightarrow> nat"
  shows "i < length xs \<Longrightarrow> sum_list (map f (xs[i := y])) + f (xs ! i) = sum_list (map f xs) + f y"
proof (induction xs arbitrary: i)
  case Nil
  then show ?case by simp
next
  case (Cons x xs)
  then show ?case by (cases i) auto
qed

lemma list_all_update:
  "list_all P xs \<Longrightarrow> P y \<Longrightarrow> list_all P (xs[i := y])"
  by (induction xs arbitrary: i) (auto split: nat.splits)

lemma inv_init: "run_inv cfg init_state"
  by (simp add: run_inv_def init_state_def pending_def scraped_count_def)

lemma inv_start_batch:
  assumes "run_inv cfg s" and "start_batch cfg s = Some s'"
  shows "run_inv cfg s'"
proof -
  from assms(2) obtain batch_urls chunks where
    b: "read_batch (write_urls (cfg_unique_urls cfg)) (batch_size cfg) (total_urls cfg) (urls_processed s)
          = Inr batch_urls"
    and c: "url_chunks batch_urls (cfg_num_workers cfg) = Inr chunks"
    and s': "s' = s\<lparr>urls_processed := urls_processed s + length batch_urls,
                     batch_num := batch_num s + 1,
                     workers := workers s @ map (\<lambda>c. Worker (batch_num s) c [] False) chunks\<rparr>"
    by (auto simp: start_batch_def split: sum.splits if_splits)
  from b have len: "length batch_urls = min (batch_size cfg) (total_urls cfg - urls_processed s)"
    by (rule read_batch_length)
  from c have "concat chunks = batch_urls" by (rule url_chunks_concat)
  then have "length batch_urls = sum_list (map length chunks)"
    by (simp add: length_concat [symmetric])
  then have p: "pending (map (\<lambda>c. Worker (batch_num s) c [] False) chunks) = length batch_urls"
    by (simp add: pending_def comp_def)
  have q: "scraped_count (map (\<lambda>c. Worker (batch_num s) c [] False) chunks) = 0"
    by (simp add: scraped_count_def comp_def)
  have pa: "pending (xs @ ys) = pending xs + pending ys" for xs ys
    by (simp add: pending_def)
  have qa: "scraped_count (xs @ ys) = scraped_count xs + scraped_count ys" for xs ys
    by (simp add: scraped_count_def)
  from assms(1) len show ?thesis
    by (auto simp: run_inv_def s' pa qa p q list_all_iff)
qed

lemma inv_scrape_url:
  assumes "run_inv cfg s" and "scrape_url cfg i s = Some s'"
  shows "run_inv cfg s'"
proof -
  from assms(2) obtain b url rest scraped where
    i: "i < length (workers s)" and w: "workers s ! i = Worker b (url # rest) scraped False"
    by (auto simp: scrape_url_def split: if_splits worker.splits list.splits bool.splits)
  let ?d = "get_listing_details (cfg_web cfg) url (cfg_div_class_mapping cfg) (cfg_label_mapping cfg)"
  let ?w = "if ?d \<noteq> [] then Worker b rest (scraped @ [?d]) False else Worker b rest scraped False"
  from assms(2) i w have s': "s' = s\<lparr>workers := (workers s)[i := ?w],
      listings_scraped := listings_scraped s + (if ?d \<noteq> [] then 1 else 0)\<rparr>"
    by (auto simp: scrape_url_def Let_def)
  have p: "pending ((workers s)[i := ?w]) + Suc (length rest) = pending (workers s) + length rest"
    using sum_list_map_update [OF i, of "\<lambda>w. length (w_chunk w)" ?w] w
    by (simp add: pending_def)
  have q: "scraped_count ((workers s)[i := ?w]) + length scraped
      = scraped_count (workers s) + length scraped + (if ?d \<noteq> [] then 1 else 0)"
    using sum_list_map_update [OF i, of "\<lambda>w. length (w_scraped w)" ?w] w
    by (simp add: scraped_count_def)
  from assms(1) i have "list_all (\<lambda>d. d \<noteq> []) (w_scraped (workers s ! i))"
    by (simp add: run_inv_def list_all_length)
  then have "list_all (\<lambda>d. d \<noteq> []) scraped" by (simp add: w)
  then have l: "list_all (\<lambda>w. list_all (\<lambda>d. d \<noteq> []) (w_scraped w)) ((workers s)[i := ?w])"
    using assms(1) by (intro list_all_update) (auto simp: run_inv_def)
  from assms(1) p q l show ?thesis
    by (simp add: run_inv_def s' split: if_splits)
qed

lemma inv_save_chunk:
  assumes "run_inv cfg s" and "save_chunk i ts s = Some s'"
  shows "run_inv cfg s'"
proof -
  from assms(2) obtain b scraped where
    i: "i < length (workers s)" and w: "workers s ! i = Worker b [] scraped False"
    and ws: "workers s' = (workers s)[i := Worker b [] scraped True]"
    and rest: "listings_scraped s' = listings_scraped s" "urls_processed s' = urls_processed s"
    by (auto simp: save_chunk_def split: if_splits worker.splits list.splits bool.splits)
  have p: "pending (workers s') = pending (workers s)"
    using sum_list_map_update [OF i, of "\<lambda>w. length (w_chunk w)" "Worker b [] scraped True"] w
    by (simp add: pending_def ws)
  have q: "scraped_count (workers s') = scraped_count (workers s)"
    using sum_list_map_update [OF i, of "\<lambda>w. length (w_scraped w)" "Worker b [] scraped True"] w
    by (simp add: scraped_count_def ws)
  from assms(1) i have "list_all (\<lambda>d. d \<noteq> []) (w_scraped (workers s ! i))"
    by (simp add: run_inv_def list_all_length)
  then have "list_all (\<lambda>d. d \<noteq> []) scraped" by (simp add: w)
  then have l: "list_all (\<lambda>w. list_all (\<lambda>d. d \<noteq> []) (w_scraped w)) (workers s')"
    unfolding ws using assms(1) by (intro list_all_update) (auto simp: run_inv_def)
  from assms(1) p q l rest show ?thesis
    by (simp add: run_inv_def)
qed

lemma inv_apply_action:
  "run_inv cfg s \<Longrightarrow> apply_action cfg a s = Some s' \<Longrightarrow> run_inv cfg s'"
  by (cases a) (auto intro: inv_start_batch inv_scrape_url inv_save_chunk)

lemma inv_run:
  "run_inv cfg s \<Longrightarrow> run cfg as s = Some s' \<Longrightarrow> run_inv cfg s'"
  by (induction as arbitrary: s) (auto split: option.splits dest: inv_apply_action)

lemma scraped_count_concat: "scraped_count ws = length (concat (map w_scraped ws))"
  by (simp add: scraped_count_def length_concat comp_def)

text \<open>
  C5. A run is a schedule of steps started in the initial state, and every point of a run
  is the end of such a schedule. At every point \<open>listings_scraped\<close> is at most
  \<open>urls_processed\<close>, it is the number of records the workers have accumulated, each of
  them a non-empty record, and it is at most the number of URLs; in particular at the end
  of the run.
\<close>

theorem counters_invariant:
  assumes "run cfg schedule init_state = Some s"
  shows "listings_scraped s \<le> urls_processed s
       \<and> listings_scraped s = length (concat (map w_scraped (workers s)))
       \<and> list_all (\<lambda>details. details \<noteq> []) (concat (map w_scraped (workers s)))
       \<and> listings_scraped s \<le> total_urls cfg"
proof -
  have "run_inv cfg s" using inv_init assms by (rule inv_run)
  then show ?thesis
    by (auto simp: run_inv_def scraped_count_concat [symmetric] list_all_iff)
qed

lemma half_run:
  "run half_config [Next_batch, Scrape 0, Scrape 1, Save 0 ''20240101_120000'', Save 1 ''20240101_120003'']
     init_state
   = Some \<lparr>batch_num = 1, urls_processed = 2, listings_scraped = 1,
       workers = [Worker 0 [] [[(''url'', Some ''a'')]] True, Worker 0 [] [] True],
       csv_files = [(''apartments_batch_1_20240101_120000.csv'', [[(''url'', Some ''a'')]])]\<rparr>"
  by code_simp


theorem counters_invariant_witness:
  "\<exists>s. run half_config
          [Next_batch, Scrape 0, Scrape 1, Save 0 ''20240101_120000'', Save 1 ''20240101_120003'']
          init_state = Some s
       \<and> listings_scraped s = 1 \<and> urls_processed s = 2 \<and> total_urls half_config = 2
       \<and> listings_scraped s \<le> urls_processed s
       \<and> listings_scraped s = length (concat (map w_scraped (workers s)))"
  using counters_invariant [OF half_run] half_run
  by (simp add: total_urls_def half_config_def)



text \<open>
  C7. Two workers of the same batch that end within the same second take the same
  \<open>worker_timestamp\<close> and so the same file name: the second write replaces the first.
  Here two chunks with one record each leave a single CSV file, holding the record of the
  second worker only.
\<close>

theorem same_second_overwrite:
  "run two_url_config
     [Next_batch, Scrape 0, Scrape 1, Save 0 ''20240101_120000'', Save 1 ''20240101_120000'']
     init_state
   = Some \<lparr>batch_num = 1, urls_processed = 2, listings_scraped = 2,
       workers = [Worker 0 [] [[(''url'', Some ''a'')]] True,
                  Worker 0 [] [[(''url'', Some ''b'')]] True],
       csv_files = [(''apartments_batch_1_20240101_120000.csv'', [[(''url'', Some ''b'')]])]\<rparr>"
  by code_simp



end
